theory Spec2Isabelle
  imports Main "HOL-Library.Char_ord" "HOL-Library.List_Lexorder"
begin

section \<open>Data model\<close>

text \<open>
  The program is a single Go file, present in three versions; the definitions follow the
  latest one (\<open>src/unnamed/part_001\<close>). The two earlier versions have the same
  \<open>parseHeaders\<close>, storage helpers and construction of the saved request.

  Go strings are byte sequences; they are modelled as \<^typ>\<open>string\<close> (lists of 8-bit
  characters), so \<^const>\<open>length\<close> is Go's \<open>len\<close>. Slices are lists: a nil slice and
  an empty slice are both the empty list (the program only reads their length and their
  elements). A Go \<open>map[string]string\<close> is a partial function.
\<close>

record APIRequest =
  Name :: string
  Method :: string
  URL :: string
  Headers :: "string \<rightharpoonup> string"
  Body :: string

record Collection =
  CName :: string
  Requests :: "APIRequest list"

record Workspace =
  WName :: string
  Collections :: "Collection list"

section \<open>Library string functions\<close>

text \<open>
  The functions of Go's \<open>strings\<close> package that the program calls, on byte strings.
  \<open>strings.ToLower\<close> and \<open>strings.TrimSpace\<close> are modelled on ASCII: letters \<open>A\<close> to \<open>Z\<close>
  are mapped to \<open>a\<close> to \<open>z\<close> and every other byte is kept, and white space is one of the six
  ASCII white-space bytes (tab, line feed, vertical tab, form feed, carriage return, space).
\<close>

definition toLowerByte :: "char \<Rightarrow> char" where
  "toLowerByte c =
     (let n = (of_char c :: nat) in if 65 \<le> n \<and> n \<le> 90 then char_of (n + 32) else c)"

definition ToLower :: "string \<Rightarrow> string" where
  "ToLower s = map toLowerByte s"

definition isSpace :: "char \<Rightarrow> bool" where
  "isSpace c \<longleftrightarrow> (let n = (of_char c :: nat) in (9 \<le> n \<and> n \<le> 13) \<or> n = 32)"

definition TrimSpace :: "string \<Rightarrow> string" where
  "TrimSpace s = rev (dropWhile isSpace (rev (dropWhile isSpace s)))"

text \<open>
  \<open>strings.Index s substr\<close>: the offset of the first occurrence of \<open>substr\<close> in \<open>s\<close>;
  Go's \<open>-1\<close> is \<^const>\<open>None\<close>.
\<close>

fun Index :: "string \<Rightarrow> string \<Rightarrow> nat option" where
  "Index [] substr = (if substr = [] then Some 0 else None)"
| "Index (c # s) substr =
     (if take (length substr) (c # s) = substr then Some 0
      else map_option Suc (Index s substr))"

text \<open>
  \<open>strings.Split s sep\<close> and \<open>strings.SplitN s sep 2\<close> for a separator of one byte, the only
  ones called. \<open>Split\<close> returns at least one piece.
\<close>

fun Split :: "string \<Rightarrow> char \<Rightarrow> string list" where
  "Split [] sep = [[]]"
| "Split (c # s) sep =
     (if c = sep then [] # Split s sep
      else (let r = Split s sep in (c # hd r) # tl r))"

definition SplitN2 :: "string \<Rightarrow> char \<Rightarrow> string list" where
  "SplitN2 s sep =
     (if sep \<in> set s
      then [takeWhile (\<lambda>c. c \<noteq> sep) s, tl (dropWhile (\<lambda>c. c \<noteq> sep) s)]
      else [s])"

text \<open>\<open>strings.Join\<close>.\<close>

fun Join :: "string list \<Rightarrow> string \<Rightarrow> string" where
  "Join [] sep = []"
| "Join [a] sep = a"
| "Join (a # b # rest) sep = a @ sep @ Join (b # rest) sep"

section \<open>Response search engine\<close>

text \<open>
  The markers that \<open>highlightText\<close> puts around a match, byte for byte as the string
  literals stand in the source file: one pair for the current match, one for the others.
\<close>

definition curOpen :: string where
  "curOpen = [CHR 0xC3, CHR 0xA3, CHR 0xE2, CHR 0x82, CHR 0xAC]"

definition curClose :: string where
  "curClose = [CHR 0xC3, CHR 0xA3, CHR 0xE2, CHR 0x82, CHR 0xAC, CHR 0xE2, CHR 0x80, CHR 0x98]"

definition otherOpen :: string where
  "otherOpen = [CHR 0xC3, CHR 0xA3, CHR 0xE2, CHR 0x82, CHR 0xAC, CHR 0xE2, CHR 0x80, CHR 0x9D]"

definition otherClose :: string where
  "otherClose = [CHR 0xC3, CHR 0xA3, CHR 0xE2, CHR 0x82, CHR 0xAC, CHR 0xE2, CHR 0x80, CHR 0xA2]"

text \<open>
  The first loop of \<open>highlightText\<close>: it has no bound of its own, so it is a partial
  function; \<^const>\<open>None\<close> stands for not returning (running forever, or the panic of
  slicing \<open>lowerText[startPos:]\<close> beyond the end).
\<close>

partial_function (option) scanLoop ::
  "string \<Rightarrow> string \<Rightarrow> string \<Rightarrow> nat \<Rightarrow> nat list \<Rightarrow> nat list option" where
  "scanLoop lowerText lowerQuery query startPos searchResults =
     (if length lowerText < startPos then None
      else (case Index (drop startPos lowerText) lowerQuery of
              None \<Rightarrow> Some searchResults
            | Some idx \<Rightarrow>
                (let absoluteIdx = startPos + idx
                 in scanLoop lowerText lowerQuery query (absoluteIdx + length query)
                      (searchResults @ [absoluteIdx]))))"

declare scanLoop.simps [code]

text \<open>
  The second loop of \<open>highlightText\<close>, over the match offsets with their index \<open>i\<close>.
  Its body (\<open>annotateStep\<close>) wraps a match that still fits in its pair of markers and
  adds the length gained to the running offset; it works on the pair of the variables
  \<open>offset\<close> and \<open>result\<close>.
\<close>

definition annotateStep :: "string \<Rightarrow> int \<Rightarrow> nat \<Rightarrow> nat \<Rightarrow> nat \<times> string \<Rightarrow> nat \<times> string" where
  "annotateStep query currentIdx i matchPos st =
     (let offset = fst st;
          result = snd st;
          start = matchPos + offset;
          end' = start + length query
      in if end' \<le> length result
         then (let highlighted =
                     (if int i = currentIdx
                      then curOpen @ take (end' - start) (drop start result) @ curClose
                      else otherOpen @ take (end' - start) (drop start result) @ otherClose)
               in (offset + (length highlighted - length query),
                   take start result @ highlighted @ drop end' result))
         else (offset, result))"

fun annotateLoop :: "string \<Rightarrow> int \<Rightarrow> nat \<Rightarrow> nat list \<Rightarrow> nat \<times> string \<Rightarrow> string" where
  "annotateLoop query currentIdx i [] st = snd st"
| "annotateLoop query currentIdx i (matchPos # rest) st =
     annotateLoop query currentIdx (i + 1) rest (annotateStep query currentIdx i matchPos st)"

text \<open>
  \<open>highlightText\<close> returns the annotated text and, as its side effect, replaces the
  variable \<open>searchResults\<close>; the model returns both. With an empty query the variable
  keeps its value.
\<close>

definition highlightText ::
  "string \<Rightarrow> string \<Rightarrow> int \<Rightarrow> nat list \<Rightarrow> (string \<times> nat list) option" where
  "highlightText text query currentIdx searchResults0 =
     (if query = [] then Some (text, searchResults0)
      else (case scanLoop (ToLower text) (ToLower query) query 0 [] of
              None \<Rightarrow> None
            | Some searchResults \<Rightarrow>
                if length searchResults = 0 then Some (text, searchResults)
                else Some (annotateLoop query currentIdx 0 searchResults (0, text), searchResults)))"

text \<open>An occurrence of \<open>sub\<close> at offset \<open>i\<close> of \<open>s\<close>, byte for byte.\<close>

definition occursAt :: "string \<Rightarrow> string \<Rightarrow> nat \<Rightarrow> bool" where
  "occursAt s sub i \<longleftrightarrow> i + length sub \<le> length s \<and> take (length sub) (drop i s) = sub"

text \<open>
  What the specification asks of the scan, in its own words: a case-insensitive match
  at an offset, and the offsets met by going left to right and resuming right after the
  end of each match.
\<close>

definition matchAt :: "string \<Rightarrow> string \<Rightarrow> nat \<Rightarrow> bool" where
  "matchAt text query p \<longleftrightarrow>
     p + length query \<le> length text \<and>
     ToLower (take (length query) (drop p text)) = ToLower query"

function specScan :: "string \<Rightarrow> string \<Rightarrow> nat \<Rightarrow> nat list" where
  "specScan text query p =
     (if query = [] \<or> length text < p + length query then []
      else if matchAt text query p then p # specScan text query (p + length query)
      else specScan text query (p + 1))"
  by pat_completeness auto
termination
proof (relation "measure (\<lambda>(t, q, p). length t - p)")
  fix t q :: string and p :: nat
  assume "\<not> (q = [] \<or> length t < p + length q)"
  then have "0 < length q" and "p + length q \<le> length t"
    by simp_all
  then have "length t - (p + length q) < length t - p" and "length t - (p + 1) < length t - p"
    by linarith+
  then show "((t, q, p + length q), t, q, p) \<in> measure (\<lambda>(t, q, p). length t - p)"
    and "((t, q, p + 1), t, q, p) \<in> measure (\<lambda>(t, q, p). length t - p)"
    by simp_all
qed simp

declare specScan.simps [simp del]

subsection \<open>Search state and its handlers\<close>

text \<open>
  The variables that the search closures of \<open>main\<close> share, with the two widgets they read
  and write: \<open>display\<close> is \<open>jsonResponse.Text\<close> (with its cursor row and column) and
  \<open>searchEntry\<close> is \<open>searchEntry.Text\<close>. A handler returns the new state; \<^const>\<open>None\<close>
  stands for not returning (a run-time panic on a slice or index out of range, or a loop
  that does not end).
\<close>

record SearchState =
  display :: string
  CursorRow :: nat
  CursorColumn :: nat
  searchEntry :: string
  currentSearchQuery :: string
  searchResults :: "nat list"
  currentMatchIndex :: int
  originalText :: string

definition initialSearchState :: SearchState where
  "initialSearchState =
     \<lparr>display = [], CursorRow = 0, CursorColumn = 0, searchEntry = [],
      currentSearchQuery = [], searchResults = [], currentMatchIndex = - 1,
      originalText = []\<rparr>"

text \<open>Go's \<open>%\<close> truncates towards zero.\<close>

definition goRem :: "int \<Rightarrow> int \<Rightarrow> int" where
  "goRem a b = (if 0 \<le> a then a mod \<bar>b\<bar> else - ((- a) mod \<bar>b\<bar>))"

definition navigateToMatch :: "int \<Rightarrow> SearchState \<Rightarrow> SearchState option" where
  "navigateToMatch matchIndex s =
     (if length (searchResults s) = 0 \<or> matchIndex < 0
         \<or> int (length (searchResults s)) \<le> matchIndex
      then Some s
      else
        (let s1 = s\<lparr>currentMatchIndex := matchIndex\<rparr> in
         case (if originalText s1 \<noteq> [] \<and> currentSearchQuery s1 \<noteq> []
               then map_option
                      (\<lambda>(highlightedText, results).
                          s1\<lparr>display := highlightedText, searchResults := results\<rparr>)
                      (highlightText (originalText s1) (currentSearchQuery s1)
                         (currentMatchIndex s1) (searchResults s1))
               else Some s1) of
           None \<Rightarrow> None
         | Some s2 \<Rightarrow>
             if length (searchResults s2) \<le> nat matchIndex then None
             else
               (let matchPos = searchResults s2 ! nat matchIndex;
                    t = (if originalText s2 = [] then display s2 else originalText s2)
                in if length t < matchPos then None
                   else
                     (let textBefore = take matchPos t;
                          row = count_list textBefore CHR 0x0A
                      in Some (s2\<lparr>CursorRow := row, CursorColumn := 0\<rparr>)))))"

definition resetSearch :: "SearchState \<Rightarrow> SearchState" where
  "resetSearch s =
     (let s1 = (if originalText s \<noteq> []
                then s\<lparr>display := originalText s, originalText := []\<rparr> else s)
      in s1\<lparr>currentSearchQuery := [], searchResults := [], currentMatchIndex := - 1\<rparr>)"

definition searchAction :: "SearchState \<Rightarrow> SearchState option" where
  "searchAction s =
     (let query = TrimSpace (searchEntry s) in
      if query = [] then Some (resetSearch s)
      else if currentSearchQuery s \<noteq> query then
        (let s1 = (if originalText s = [] then s\<lparr>originalText := display s\<rparr> else s);
             s2 = s1\<lparr>currentSearchQuery := query\<rparr>
         in case highlightText (originalText s2) query 0 (searchResults s2) of
              None \<Rightarrow> None
            | Some (_, results) \<Rightarrow>
                (let s3 = s2\<lparr>searchResults := results\<rparr>
                 in if 0 < length (searchResults s3)
                    then navigateToMatch 0 (s3\<lparr>currentMatchIndex := 0\<rparr>)
                    else Some (s3\<lparr>display := originalText s3, currentMatchIndex := - 1\<rparr>)))
      else if 0 < length (searchResults s) then
        (let nextIdx = goRem (currentMatchIndex s + 1) (int (length (searchResults s)))
         in navigateToMatch nextIdx s)
      else Some s)"

definition prevTapped :: "SearchState \<Rightarrow> SearchState option" where
  "prevTapped s =
     (if length (searchResults s) = 0 then Some s
      else
        (let prevIdx = currentMatchIndex s - 1;
             prevIdx = (if prevIdx < 0 then int (length (searchResults s)) - 1 else prevIdx)
         in navigateToMatch prevIdx s))"

definition nextTapped :: "SearchState \<Rightarrow> SearchState option" where
  "nextTapped s =
     (if length (searchResults s) = 0 then Some s
      else
        (let nextIdx = goRem (currentMatchIndex s + 1) (int (length (searchResults s)))
         in navigateToMatch nextIdx s))"

definition clearTapped :: "SearchState \<Rightarrow> SearchState" where
  "clearTapped s = resetSearch (s\<lparr>searchEntry := []\<rparr>)"

text \<open>
  \<open>sendBtn.OnTapped\<close>, as far as the search state goes: on every path (request error,
  transport error, read error, response) it sets the response box to a new text and
  resets the four search variables.
\<close>

definition responseArrives :: "string \<Rightarrow> SearchState \<Rightarrow> SearchState" where
  "responseArrives body s =
     s\<lparr>display := body, originalText := [], currentSearchQuery := [],
       searchResults := [], currentMatchIndex := - 1\<rparr>"

text \<open>
  The handler of the JSONata button. Decoding the text and evaluating the expression
  are library calls: \<open>eval expr jsonText\<close> is their outcome, \<^const>\<open>None\<close> when either
  reports an error. The result goes to another widget; the search variables are reset
  at the end.
\<close>

definition jsonataApply ::
  "(string \<Rightarrow> string \<Rightarrow> string option) \<Rightarrow> string \<Rightarrow> SearchState \<Rightarrow> SearchState" where
  "jsonataApply eval expr s =
     (if expr = [] then s
      else
        (let jsonText = (if originalText s = [] then display s else originalText s)
         in case eval expr jsonText of
              None \<Rightarrow> s
            | Some res \<Rightarrow>
                s\<lparr>originalText := display s, currentSearchQuery := [],
                  searchResults := [], currentMatchIndex := - 1\<rparr>))"

text \<open>The operations on the search engine, and a sequence of them run from a state.\<close>

datatype SearchOp =
    Search string
  | Next
  | Previous
  | Clear
  | Response string
  | Jsonata string

fun searchStep ::
  "(string \<Rightarrow> string \<Rightarrow> string option) \<Rightarrow> SearchOp \<Rightarrow> SearchState \<Rightarrow> SearchState option" where
  "searchStep eval (Search q) s = searchAction (s\<lparr>searchEntry := q\<rparr>)"
| "searchStep eval Next s = nextTapped s"
| "searchStep eval Previous s = prevTapped s"
| "searchStep eval Clear s = Some (clearTapped s)"
| "searchStep eval (Response body) s = Some (responseArrives body s)"
| "searchStep eval (Jsonata expr) s = Some (jsonataApply eval expr s)"

fun searchRun ::
  "(string \<Rightarrow> string \<Rightarrow> string option) \<Rightarrow> SearchOp list \<Rightarrow> SearchState \<Rightarrow> SearchState option" where
  "searchRun eval [] s = Some s"
| "searchRun eval (x # xs) s =
     (case searchStep eval x s of None \<Rightarrow> None | Some s' \<Rightarrow> searchRun eval xs s')"

text \<open>
  The invariant that the search variables are meant to keep, relative to the text \<open>body\<close>
  that last arrived in the response box: a capture, when one is held, is that text;
  without a capture the box shows that text; and the match offsets, when there are any,
  are those of the active query in that text.
\<close>

definition searchInv :: "string \<Rightarrow> SearchState \<Rightarrow> bool" where
  "searchInv body s \<longleftrightarrow>
     (originalText s = [] \<or> originalText s = body) \<and>
     (originalText s = [] \<longrightarrow> display s = body) \<and>
     (searchResults s \<noteq> [] \<longrightarrow>
        currentSearchQuery s \<noteq> [] \<and> originalText s = body \<and>
        searchResults s = specScan body (currentSearchQuery s) 0)"

fun isJsonata :: "SearchOp \<Rightarrow> bool" where
  "isJsonata (Jsonata expr) = True"
| "isJsonata _ = False"

fun lastBody :: "string \<Rightarrow> SearchOp list \<Rightarrow> string" where
  "lastBody body [] = body"
| "lastBody body (Response x # ops) = lastBody x ops"
| "lastBody body (_ # ops) = lastBody body ops"


section \<open>Request executor: composing the outgoing request\<close>

text \<open>
  The first part of \<open>sendBtn.OnTapped\<close>. \<open>http.NewRequest\<close> is library code: the
  request it builds is modelled by the three things the handler passes to it, and the
  error it reports for a method and a URL (if any) is the parameter \<open>buildErr\<close>.
  A \<open>nil\<close> body reader is \<^const>\<open>None\<close>; a buffer over the body bytes is \<open>Some\<close> of them.
\<close>

record OutRequest =
  reqMethod :: string
  reqURL :: string
  reqBody :: "string option"

definition NewRequest ::
  "(string \<Rightarrow> string \<Rightarrow> string option) \<Rightarrow> string \<Rightarrow> string \<Rightarrow> string option
     \<Rightarrow> string + OutRequest" where
  "NewRequest buildErr method url body =
     (case buildErr method url of
        Some e \<Rightarrow> Inl e
      | None \<Rightarrow> Inr \<lparr>reqMethod = method, reqURL = url, reqBody = body\<rparr>)"

definition composeRequest ::
  "(string \<Rightarrow> string \<Rightarrow> string option) \<Rightarrow> string \<Rightarrow> string \<Rightarrow> string
     \<Rightarrow> (string + OutRequest) \<times> nat" where
  "composeRequest buildErr method url body =
     (if method = ''GET'' \<or> method = ''DELETE'' \<or> method = ''HEAD'' \<or> method = ''OPTIONS''
      then (NewRequest buildErr method url None, 0)
      else (let bodyBytes = body
            in (NewRequest buildErr method url (Some bodyBytes), length bodyBytes)))"

section \<open>Header codec\<close>

text \<open>
  \<open>http.Header\<close> is a \<open>map[string][]string\<close>. Its method \<open>Add\<close> appends the value to the
  values of the key after bringing the key into the canonical form of
  \<open>textproto.CanonicalMIMEHeaderKey\<close>: a key made of header-field bytes only (letters,
  digits and the punctuation of an RFC 7230 token) gets an upper-case letter at the start
  and after each hyphen and lower-case letters elsewhere; a key with any other byte is
  left as it is.
\<close>

type_synonym Header = "string \<rightharpoonup> string list"

definition isLowerLetter :: "char \<Rightarrow> bool" where
  "isLowerLetter c \<longleftrightarrow> (let n = (of_char c :: nat) in 97 \<le> n \<and> n \<le> 122)"

definition isUpperLetter :: "char \<Rightarrow> bool" where
  "isUpperLetter c \<longleftrightarrow> (let n = (of_char c :: nat) in 65 \<le> n \<and> n \<le> 90)"

definition isDigit :: "char \<Rightarrow> bool" where
  "isDigit c \<longleftrightarrow> (let n = (of_char c :: nat) in 48 \<le> n \<and> n \<le> 57)"

definition validHeaderFieldByte :: "char \<Rightarrow> bool" where
  "validHeaderFieldByte c \<longleftrightarrow>
     isLowerLetter c \<or> isUpperLetter c \<or> isDigit c \<or>
     c \<in> set [CHR 0x21, CHR 0x23, CHR 0x24, CHR 0x25, CHR 0x26, CHR 0x27, CHR 0x2A, CHR 0x2B,
               CHR 0x2D, CHR 0x2E, CHR 0x5E, CHR 0x5F, CHR 0x60, CHR 0x7C, CHR 0x7E]"

definition canonByte :: "bool \<Rightarrow> char \<Rightarrow> char" where
  "canonByte upper c =
     (if upper \<and> isLowerLetter c then char_of ((of_char c :: nat) - 32)
      else if \<not> upper \<and> isUpperLetter c then char_of ((of_char c :: nat) + 32)
      else c)"

fun canonLoop :: "bool \<Rightarrow> string \<Rightarrow> string" where
  "canonLoop upper [] = []"
| "canonLoop upper (c # a) =
     (let c' = canonByte upper c in c' # canonLoop (c' = CHR 0x2D) a)"

definition CanonicalMIMEHeaderKey :: "string \<Rightarrow> string" where
  "CanonicalMIMEHeaderKey s = (if list_all validHeaderFieldByte s then canonLoop True s else s)"

definition Add :: "Header \<Rightarrow> string \<Rightarrow> string \<Rightarrow> Header" where
  "Add h key val =
     (let k = CanonicalMIMEHeaderKey key
      in h(k \<mapsto> (case h k of None \<Rightarrow> [] | Some vs \<Rightarrow> vs) @ [val]))"

text \<open>\<open>parseHeaders\<close>: the body of its loop over the lines, and the function.\<close>

definition parseLine :: "Header \<Rightarrow> string \<Rightarrow> Header" where
  "parseLine headers line =
     (if TrimSpace line = [] then headers
      else (let parts = SplitN2 line CHR 0x3A
            in if length parts = 2
               then Add headers (TrimSpace (parts ! 0)) (TrimSpace (parts ! 1))
               else headers))"

definition parseHeaders :: "string \<Rightarrow> Header" where
  "parseHeaders headerStr =
     (let headers = Map.empty;
          lines = Split headerStr CHR 0x0A
      in foldl parseLine headers lines)"

text \<open>
  The flattening of \<open>saveReqBtn\<close>: each key of the parsed header gets the join of its
  values with a comma and a space.
\<close>

definition flattenHeaders :: "Header \<Rightarrow> (string \<rightharpoonup> string)" where
  "flattenHeaders h = (\<lambda>k. case h k of None \<Rightarrow> None | Some v \<Rightarrow> Some (Join v '', ''))"







section \<open>Workspace store\<close>

subsection \<open>The persisted document\<close>

text \<open>
  \<open>saveWorkspaces\<close> and \<open>loadWorkspaces\<close> hand the list of workspaces to
  \<open>encoding/json\<close>, which is library code. Its work is modelled in two layers. The text of
  a JSON document (indentation, string escapes) is not modelled: the content of the file
  is either a JSON value or text that is not JSON. The binding between Go values and
  JSON values is modelled as the struct tags of the source declare it: \<open>Marshal\<close> writes a
  struct as an object with one member per field, under the name of its tag and in the
  order of the declaration, a slice as an array, a map as an object with its keys in
  sorted order and a string as a string; \<open>Unmarshal\<close> reads a member by the name of the
  tag (the last one, when a name is repeated), leaves a field whose member is absent or
  \<open>null\<close> at its zero value, skips members it does not know and reports a value of another
  shape as an error. (For a nil slice or map \<open>Marshal\<close> writes \<open>null\<close>, which is read back
  as a slice or map with no element as well.) Strings are taken to be text in UTF-8, as
  every string that reaches the store is (typed into an entry, or decoded from JSON):
  on such strings the text layer loses nothing.
\<close>

datatype json =
    JNull
  | JBool bool
  | JNumber string
  | JString string
  | JArray "json list"
  | JObject "(string \<times> json) list"

datatype fileData = Malformed | Document json

datatype error = ReadError | WriteError | DecodeError | IndexOutOfRange

definition encHeaders :: "(string \<rightharpoonup> string) \<Rightarrow> json" where
  "encHeaders m =
     JObject (map (\<lambda>k. (k, JString (case m k of None \<Rightarrow> [] | Some v \<Rightarrow> v)))
                (sorted_list_of_set (dom m)))"

definition encRequest :: "APIRequest \<Rightarrow> json" where
  "encRequest r =
     JObject [(''name'', JString (Name r)), (''method'', JString (Method r)),
              (''url'', JString (URL r)), (''headers'', encHeaders (Headers r)),
              (''body'', JString (Body r))]"

definition encCollection :: "Collection \<Rightarrow> json" where
  "encCollection c =
     JObject [(''name'', JString (CName c)), (''requests'', JArray (map encRequest (Requests c)))]"

definition encWorkspace :: "Workspace \<Rightarrow> json" where
  "encWorkspace w =
     JObject [(''name'', JString (WName w)),
              (''collections'', JArray (map encCollection (Collections w)))]"

definition Marshal :: "Workspace list \<Rightarrow> fileData" where
  "Marshal ws = Document (JArray (map encWorkspace ws))"



definition member :: "string \<Rightarrow> (string \<times> json) list \<Rightarrow> json" where
  "member key ms = (case map_of (rev ms) key of None \<Rightarrow> JNull | Some v \<Rightarrow> v)"








subsection \<open>The file and the two storage helpers\<close>

text \<open>
  The one file at \<open>getStoragePath()\<close>: \<open>content\<close> is what it holds, \<^const>\<open>None\<close> when it does
  not exist; \<open>readable\<close> and \<open>writable\<close> say whether \<open>os.ReadFile\<close> and \<open>os.WriteFile\<close>
  succeed on it. \<open>loadWorkspaces\<close> returns \<open>Inl\<close> of the error when its second result is
  not nil (the slice returned beside it is not modelled) and \<open>Inr\<close> of the slice otherwise.
  \<open>json.MarshalIndent\<close> reports no error on these types, so \<open>saveWorkspaces\<close> fails only
  in the write.
\<close>

record Disk =
  content :: "fileData option"
  readable :: bool
  writable :: bool


definition saveWorkspaces :: "Workspace list \<Rightarrow> Disk \<Rightarrow> error option \<times> Disk" where
  "saveWorkspaces ws d =
     (let data = Marshal ws
      in if writable d then (None, d\<lparr>content := Some data\<rparr>) else (Some WriteError, d))"


subsection \<open>The handlers that change the store\<close>

text \<open>
  The variables and widgets that the store handlers of \<open>main\<close> share: the list of
  workspaces, the selections of the two dropdowns, the collection index, the four fields
  of the request form, and the file.
\<close>

record App =
  workspaces :: "Workspace list"
  workspaceSelected :: string
  collectionSelected :: string
  selectedCollectionIdx :: int
  methodSelected :: string
  urlEntry :: string
  headersEntry :: string
  bodyEntry :: string
  disk :: Disk

text \<open>
  The lookup loop that most handlers share: the index of the first workspace with the
  name, where the loop breaks; \<^const>\<open>None\<close> is \<open>wsIdx == -1\<close>.
\<close>

fun wsIndex :: "string \<Rightarrow> Workspace list \<Rightarrow> nat option" where
  "wsIndex n [] = None"
| "wsIndex n (w # ws) = (if WName w = n then Some 0 else map_option Suc (wsIndex n ws))"

definition saveAll :: "Workspace list \<Rightarrow> App \<Rightarrow> error option \<times> App" where
  "saveAll ws s =
     (case saveWorkspaces ws (disk s) of
        (err, d) \<Rightarrow> (err, s\<lparr>workspaces := ws, disk := d\<rparr>))"

text \<open>\<open>saveReqBtn\<close>: the request built from the form is appended to the selected collection.\<close>

definition appendRequest :: "nat \<Rightarrow> nat \<Rightarrow> APIRequest \<Rightarrow> Workspace list \<Rightarrow> Workspace list" where
  "appendRequest wsIdx colIdx req ws =
     (let w = ws ! wsIdx;
          c = Collections w ! colIdx
      in ws[wsIdx := w\<lparr>Collections := (Collections w)[colIdx := c\<lparr>Requests := Requests c @ [req]\<rparr>]\<rparr>])"

definition saveReqBtn :: "App \<Rightarrow> App" where
  "saveReqBtn s =
     (if workspaceSelected s = [] \<or> workspaceSelected s = ''+ New Workspace'' then s
      else if selectedCollectionIdx s < 0 then s
      else
        (case wsIndex (workspaceSelected s) (workspaces s) of
           None \<Rightarrow> s
         | Some wsIdx \<Rightarrow>
             if int (length (Collections (workspaces s ! wsIdx))) \<le> selectedCollectionIdx s
             then s
             else
               (let colIdx = nat (selectedCollectionIdx s);
                    headersMap = flattenHeaders (parseHeaders (headersEntry s));
                    req = \<lparr>Name = urlEntry s, Method = methodSelected s, URL = urlEntry s,
                           Headers = headersMap, Body = bodyEntry s\<rparr>
                in snd (saveAll (appendRequest wsIdx colIdx req (workspaces s)) s))))"

text \<open>
  \<open>createNewCollection\<close>, with the answer of its form (\<open>ok\<close> and the text entered). The
  loop over the workspaces has no \<open>break\<close>: its body runs at every index. (Selecting the
  new name in the dropdown calls the dropdown's own callback, whose assignment to
  \<open>selectedCollectionIdx\<close> the next statement overwrites.)
\<close>

definition addCollectionAt :: "nat \<Rightarrow> Collection \<Rightarrow> Workspace list \<Rightarrow> Workspace list" where
  "addCollectionAt i c ws = ws[i := (ws ! i)\<lparr>Collections := Collections (ws ! i) @ [c]\<rparr>]"

definition createStep :: "string \<Rightarrow> App \<Rightarrow> nat \<Rightarrow> App" where
  "createStep entryText s i =
     (if WName (workspaces s ! i) = workspaceSelected s
      then (case saveAll (addCollectionAt i \<lparr>CName = entryText, Requests = []\<rparr> (workspaces s)) s of
              (err, s1) \<Rightarrow>
                if err = None
                then s1\<lparr>collectionSelected := entryText,
                        selectedCollectionIdx := int (length (Collections (workspaces s1 ! i))) - 1\<rparr>
                else s1)
      else s)"

definition createNewCollection :: "bool \<Rightarrow> string \<Rightarrow> App \<Rightarrow> App" where
  "createNewCollection ok entryText s =
     (if workspaceSelected s = [] \<or> workspaceSelected s = ''+ New Workspace'' then s
      else if \<not> ok \<or> entryText = [] then s
      else foldl (createStep entryText) s [0..<length (workspaces s)])"

text \<open>
  \<open>importPostmanJSON\<close>, from the decoded payload on: the name of the collection, and per
  item its name, method, URL (a JSON value: a string, or an object with a string under
  \<open>raw\<close>), header pairs and raw body. \<open>picked\<close> is \<^const>\<open>None\<close> when the file dialog gives
  no reader, and \<open>Some (Inl e)\<close> when the payload is not JSON. Again the loop has no
  \<open>break\<close>.
\<close>

record PostmanItem =
  itemName :: string
  itemMethod :: string
  itemURL :: json
  itemHeader :: "(string \<times> string) list"
  itemBodyRaw :: string

record PostmanDoc =
  infoName :: string
  items :: "PostmanItem list"

definition importRequest :: "PostmanItem \<Rightarrow> APIRequest" where
  "importRequest item =
     (let headers = foldl (\<lambda>m h. m(fst h \<mapsto> snd h)) Map.empty (itemHeader item);
          urlStr = (case itemURL item of
                      JString v \<Rightarrow> v
                    | JObject v \<Rightarrow> (case member ''raw'' v of JString raw \<Rightarrow> raw | _ \<Rightarrow> [])
                    | _ \<Rightarrow> [])
      in \<lparr>Name = itemName item, Method = itemMethod item, URL = urlStr,
          Headers = headers, Body = itemBodyRaw item\<rparr>)"

definition importStep :: "PostmanDoc \<Rightarrow> App \<Rightarrow> nat \<Rightarrow> App" where
  "importStep postman s i =
     (if WName (workspaces s ! i) = workspaceSelected s
      then (let col = \<lparr>CName = infoName postman, Requests = map importRequest (items postman)\<rparr>;
                s1 = snd (saveAll (addCollectionAt i col (workspaces s)) s)
            in s1\<lparr>collectionSelected := CName col,
                  selectedCollectionIdx := int (length (Collections (workspaces s1 ! i))) - 1\<rparr>)
      else s)"

definition importPostmanJSON :: "(error + PostmanDoc) option \<Rightarrow> App \<Rightarrow> App" where
  "importPostmanJSON picked s =
     (case picked of
        None \<Rightarrow> s
      | Some (Inl e) \<Rightarrow> s
      | Some (Inr postman) \<Rightarrow>
          if workspaceSelected s = [] then s
          else foldl (importStep postman) s [0..<length (workspaces s)])"

text \<open>
  \<open>editRequestName\<close> and \<open>deleteRequest\<close>, with the index they are called with and the
  answer of their dialog. Reading \<open>coll.Requests[reqIdx]\<close> outside the slice is a run-time
  panic, \<open>Inl IndexOutOfRange\<close>.
\<close>

definition setRequests :: "nat \<Rightarrow> nat \<Rightarrow> APIRequest list \<Rightarrow> Workspace list \<Rightarrow> Workspace list" where
  "setRequests wsIdx colIdx rs ws =
     (let w = ws ! wsIdx;
          c = Collections w ! colIdx
      in ws[wsIdx := w\<lparr>Collections := (Collections w)[colIdx := c\<lparr>Requests := rs\<rparr>]\<rparr>])"

definition editRequestName :: "int \<Rightarrow> bool \<Rightarrow> string \<Rightarrow> App \<Rightarrow> error + App" where
  "editRequestName reqIdx ok entryText s =
     (if workspaceSelected s = [] \<or> workspaceSelected s = ''+ New Workspace''
         \<or> selectedCollectionIdx s < 0
      then Inr s
      else
        (case wsIndex (workspaceSelected s) (workspaces s) of
           None \<Rightarrow> Inr s
         | Some wsIdx \<Rightarrow>
             if int (length (Collections (workspaces s ! wsIdx))) \<le> selectedCollectionIdx s
             then Inr s
             else
               (let colIdx = nat (selectedCollectionIdx s);
                    coll = Collections (workspaces s ! wsIdx) ! colIdx
                in if int (length (Requests coll)) \<le> reqIdx then Inr s
                   else if reqIdx < 0 then Inl IndexOutOfRange
                   else if \<not> ok \<or> entryText = [] then Inr s
                   else
                     (let r = Requests coll ! nat reqIdx;
                          rs = (Requests coll)[nat reqIdx := r\<lparr>Name := entryText\<rparr>]
                      in Inr (snd (saveAll (setRequests wsIdx colIdx rs (workspaces s)) s))))))"

definition deleteRequest :: "int \<Rightarrow> bool \<Rightarrow> App \<Rightarrow> error + App" where
  "deleteRequest reqIdx confirmed s =
     (if workspaceSelected s = [] \<or> workspaceSelected s = ''+ New Workspace''
         \<or> selectedCollectionIdx s < 0
      then Inr s
      else
        (case wsIndex (workspaceSelected s) (workspaces s) of
           None \<Rightarrow> Inr s
         | Some wsIdx \<Rightarrow>
             if int (length (Collections (workspaces s ! wsIdx))) \<le> selectedCollectionIdx s
             then Inr s
             else
               (let colIdx = nat (selectedCollectionIdx s);
                    coll = Collections (workspaces s ! wsIdx) ! colIdx
                in if int (length (Requests coll)) \<le> reqIdx then Inr s
                   else if reqIdx < 0 then Inl IndexOutOfRange
                   else if \<not> confirmed then Inr s
                   else
                     (let rs = take (nat reqIdx) (Requests coll)
                                 @ drop (nat reqIdx + 1) (Requests coll)
                      in Inr (snd (saveAll (setRequests wsIdx colIdx rs (workspaces s)) s))))))"


definition noFile :: Disk where
  "noFile = \<lparr>content = None, readable = True, writable = True\<rparr>"

text \<open>Two states of the application, for the examples below.\<close>

definition twoSameName :: App where
  "twoSameName =
     \<lparr>workspaces = [\<lparr>WName = ''W'', Collections = []\<rparr>, \<lparr>WName = ''W'', Collections = []\<rparr>],
      workspaceSelected = ''W'', collectionSelected = [], selectedCollectionIdx = - 1,
      methodSelected = ''GET'', urlEntry = [], headersEntry = [], bodyEntry = [],
      disk = noFile\<rparr>"

definition oneRequest :: App where
  "oneRequest =
     \<lparr>workspaces = [\<lparr>WName = ''W'', Collections =
         [\<lparr>CName = ''c'', Requests =
            [\<lparr>Name = ''r'', Method = ''GET'', URL = ''http://h/'', Headers = Map.empty,
              Body = []\<rparr>]\<rparr>]\<rparr>],
      workspaceSelected = ''W'', collectionSelected = ''c'', selectedCollectionIdx = 0,
      methodSelected = ''POST'', urlEntry = ''http://h/x'', headersEntry = ''a: b'',
      bodyEntry = ''{}'', disk = noFile\<rparr>"

section \<open>Theorems\<close>

subsection \<open>Request executor\<close>

text \<open>
  C7. Whenever the outgoing request is built, a request with method GET, DELETE, HEAD or
  OPTIONS carries no body at all and the reported request size is 0, whatever the body
  field holds; with any other method the body field is attached (also when it is empty)
  and the reported size is its length in bytes.
\<close>

theorem composeRequest_body:
  "composeRequest buildErr method url body = (Inr req, reqSize) \<Longrightarrow>
     (if method \<in> {''GET'', ''DELETE'', ''HEAD'', ''OPTIONS''}
      then reqBody req = None \<and> reqSize = 0
      else reqBody req = Some body \<and> reqSize = length body)"
  by (auto simp: composeRequest_def NewRequest_def Let_def split: option.splits if_splits)

theorem composeRequest_body_witness:
  "composeRequest (\<lambda>m u. None) ''GET'' ''http://h/'' ''{\"a\":1}''
     = (Inr \<lparr>reqMethod = ''GET'', reqURL = ''http://h/'', reqBody = None\<rparr>, 0)
   \<and> reqBody \<lparr>reqMethod = ''GET'', reqURL = ''http://h/'', reqBody = None\<rparr> = None
   \<and> composeRequest (\<lambda>m u. None) ''POST'' ''http://h/'' ''''
     = (Inr \<lparr>reqMethod = ''POST'', reqURL = ''http://h/'', reqBody = Some ''''\<rparr>, 0)"
  using composeRequest_body [of "\<lambda>m u. None" "''GET''" "''http://h/''" "''{\"a\":1}''"
      "\<lparr>reqMethod = ''GET'', reqURL = ''http://h/'', reqBody = None\<rparr>" 0]
  by (simp add: composeRequest_def NewRequest_def)

subsection \<open>Response search engine: the scan\<close>

lemma length_ToLower [simp]: "length (ToLower s) = length s"
  by (simp add: ToLower_def)

lemma ToLower_take: "ToLower (take n s) = take n (ToLower s)"
  by (simp add: ToLower_def take_map)
lemma ToLower_drop: "ToLower (drop n s) = drop n (ToLower s)"
  by (simp add: ToLower_def drop_map)

lemma Index_None: "Index s sub = None \<Longrightarrow> \<not> occursAt s sub i"
proof (induction s arbitrary: i)
  case Nil then show ?case by (auto simp: occursAt_def split: if_splits)
next
  case (Cons c s)
  then show ?case
    by (cases i) (auto simp: occursAt_def split: if_splits)
qed

lemma Index_Some:
  "Index s sub = Some i \<Longrightarrow> occursAt s sub i \<and> (\<forall>j<i. \<not> occursAt s sub j)"
proof (induction s arbitrary: i)
  case Nil then show ?case by (auto simp: occursAt_def split: if_splits)
next
  case (Cons c s)
  show ?case
  proof (cases "take (length sub) (c # s) = sub")
    case True
    with Cons.prems have "i = 0" by simp
    moreover have "length (take (length sub) (c # s)) = length sub" using True by simp
    then have "length sub \<le> length (c # s)" by simp
    ultimately show ?thesis using True by (simp add: occursAt_def)
  next
    case False
    with Cons.prems obtain i' where i': "Index s sub = Some i'" "i = Suc i'"
      by auto
    from Cons.IH[OF i'(1)] have ih: "occursAt s sub i'" "\<forall>j<i'. \<not> occursAt s sub j" by auto
    have "occursAt (c # s) sub (Suc i')" using ih(1) by (simp add: occursAt_def)
    moreover have "\<not> occursAt (c # s) sub j" if "j < Suc i'" for j
    proof (cases j)
      case 0 then show ?thesis using False by (simp add: occursAt_def)
    next
      case (Suc j') then show ?thesis using ih(2) that by (simp add: occursAt_def)
    qed
    ultimately show ?thesis using i'(2) by blast
  qed
qed

lemma matchAt_occursAt:
  "matchAt t q p \<longleftrightarrow> occursAt (drop s (ToLower t)) (ToLower q) (p - s)"
  if "s \<le> p" "s \<le> length t"
proof -
  have "p - s + length (ToLower q) \<le> length (drop s (ToLower t)) \<longleftrightarrow> p + length q \<le> length t"
    using that by (simp add: ToLower_def) arith
  moreover have "drop (p - s) (drop s (ToLower t)) = drop p (ToLower t)"
    using that by simp
  ultimately show ?thesis
    by (simp add: matchAt_def occursAt_def ToLower_take ToLower_drop)
qed

lemma specScan_skip:
  "q \<noteq> [] \<Longrightarrow> \<forall>j. p \<le> j \<and> j < p + d \<longrightarrow> \<not> matchAt t q j \<Longrightarrow> p + d + length q \<le> length t
    \<Longrightarrow> specScan t q p = specScan t q (p + d)"
proof (induction d arbitrary: p)
  case 0 then show ?case by simp
next
  case (Suc d)
  have "\<not> matchAt t q p" using Suc.prems(2) by simp
  moreover have "\<not> length t < p + length q" using Suc.prems(3) by simp
  ultimately have "specScan t q p = specScan t q (p + 1)"
    using Suc.prems(1) by (subst specScan.simps) simp
  also have "\<dots> = specScan t q (p + 1 + d)"
    using Suc.prems by (intro Suc.IH) auto
  finally show ?case by simp
qed

lemma specScan_none:
  "\<forall>j\<ge>p. \<not> matchAt t q j \<Longrightarrow> specScan t q p = []"
proof (induction t q p rule: specScan.induct)
  case (1 t q p)
  show ?case
  proof (cases "q = [] \<or> length t < p + length q")
    case True then show ?thesis by (subst specScan.simps) simp
  next
    case False
    moreover have "\<not> matchAt t q p" using "1.prems" by simp
    moreover have "specScan t q (p + 1) = []"
      using "1.IH"(2) False \<open>\<not> matchAt t q p\<close> "1.prems" by simp
    ultimately show ?thesis by (subst specScan.simps) simp
  qed
qed

lemma scanLoop_refines:
  assumes "q \<noteq> []"
  shows "s \<le> length t \<Longrightarrow>
         scanLoop (ToLower t) (ToLower q) q s acc = Some (acc @ specScan t q s)"
proof (induction "length t - s" arbitrary: s acc rule: less_induct)
  case less
  show ?case
  proof (cases "Index (drop s (ToLower t)) (ToLower q)")
    case None
    have "\<not> matchAt t q j" if "s \<le> j" for j
      using Index_None[OF None, of "j - s"] matchAt_occursAt[OF that less.prems] by simp
    then have "specScan t q s = []" by (simp add: specScan_none)
    then show ?thesis using None less.prems
      by (subst scanLoop.simps) simp
  next
    case (Some idx)
    from Index_Some[OF Some]
    have occ: "occursAt (drop s (ToLower t)) (ToLower q) idx"
      and first: "\<forall>j<idx. \<not> occursAt (drop s (ToLower t)) (ToLower q) j" by auto
    have m: "matchAt t q (s + idx)"
      using occ matchAt_occursAt[of s "s + idx" t q] less.prems by simp
    then have bound: "s + idx + length q \<le> length t" by (simp add: matchAt_def)
    have nm: "\<not> matchAt t q j" if "s \<le> j" "j < s + idx" for j
    proof -
      have "j - s < idx" using that by arith
      then show ?thesis using first matchAt_occursAt[OF that(1) less.prems, of q] by simp
    qed
    have "specScan t q s = specScan t q (s + idx)"
      using assms nm bound by (intro specScan_skip) auto
    also have "\<dots> = (s + idx) # specScan t q (s + idx + length q)"
      using assms m bound by (subst specScan.simps) simp
    finally have spec: "specScan t q s = (s + idx) # specScan t q (s + idx + length q)" .
    have "length t - (s + idx + length q) < length t - s"
      using assms bound by (cases q) auto
    from less.hyps[OF this bound]
    have "scanLoop (ToLower t) (ToLower q) q (s + idx + length q) (acc @ [s + idx])
            = Some ((acc @ [s + idx]) @ specScan t q (s + idx + length q))" .
    then show ?thesis using Some less.prems spec
      by (subst scanLoop.simps) (simp add: Let_def)
  qed
qed

lemma specScan_matches: "p \<in> set (specScan t q s) \<Longrightarrow> matchAt t q p \<and> s \<le> p"
proof (induction t q s rule: specScan.induct)
  case (1 t q s)
  from "1.prems" show ?case
    by (subst (asm) specScan.simps) (use "1.IH" in \<open>fastforce split: if_splits\<close>)
qed

lemma specScan_apart: "sorted_wrt (\<lambda>a b. a + length q \<le> b) (specScan t q s)"
proof (induction t q s rule: specScan.induct)
  case (1 t q s)
  show ?case
  proof (cases "q = [] \<or> length t < s + length q")
    case True then show ?thesis by (subst specScan.simps) simp
  next
    case False
    show ?thesis
    proof (cases "matchAt t q s")
      case True
      have "\<forall>b \<in> set (specScan t q (s + length q)). s + length q \<le> b"
        using specScan_matches by blast
      then show ?thesis using False True "1.IH"(1)
        by (subst specScan.simps) simp
    next
      case nomatch: False
      then show ?thesis using False "1.IH"(2)
        by (subst specScan.simps) simp
    qed
  qed
qed

lemma specScan_complete:
  "q \<noteq> [] \<Longrightarrow> matchAt t q j \<Longrightarrow> s \<le> j \<Longrightarrow>
     \<exists>p \<in> set (specScan t q s). p \<le> j \<and> j < p + length q"
proof (induction t q s rule: specScan.induct)
  case (1 t q s)
  have fits: "\<not> (q = [] \<or> length t < s + length q)"
    using "1.prems" by (auto simp: matchAt_def)
  show ?case
  proof (cases "matchAt t q s")
    case True
    show ?thesis
    proof (cases "j < s + length q")
      case True
      then show ?thesis using fits \<open>matchAt t q s\<close> "1.prems"(3)
        by (subst specScan.simps) simp
    next
      case False
      then have "\<exists>p \<in> set (specScan t q (s + length q)). p \<le> j \<and> j < p + length q"
        using "1.IH"(1)[OF fits True] "1.prems" by simp
      then show ?thesis using fits True
        by (subst specScan.simps) auto
    qed
  next
    case False
    then have "s \<noteq> j" using "1.prems"(2) by auto
    then have "s + 1 \<le> j" using "1.prems"(3) by simp
    then have "\<exists>p \<in> set (specScan t q (s + 1)). p \<le> j \<and> j < p + length q"
      using "1.IH"(2)[OF fits False] "1.prems" by simp
    then show ?thesis using fits False
      by (subst specScan.simps) auto
  qed
qed



subsection \<open>Response search engine: what the offsets are computed against\<close>

text \<open>
  Searching, stepping to the next or previous match, clearing and the arrival of a
  response keep the invariant \<^const>\<open>searchInv\<close>, and every handler returns: the scan ends
  and no slice or index is out of range.
\<close>

lemma specScan_Nil_text: "q \<noteq> [] \<Longrightarrow> specScan [] q 0 = []"
  by (subst specScan.simps) simp

lemma highlightText_results:
  assumes "q \<noteq> []"
  shows "\<exists>x. highlightText t q i sr = Some (x, specScan t q 0)"
  using assms scanLoop_refines[OF assms, of 0 t "[]"] by (simp add: highlightText_def)

lemma specScan_bound: "p \<in> set (specScan t q s) \<Longrightarrow> p \<le> length t"
  using specScan_matches[of p t q s] by (simp add: matchAt_def)

lemma navigateToMatch_inv:
  assumes inv: "searchInv b s"
  shows "\<exists>s'. navigateToMatch i s = Some s' \<and> searchInv b s'"
proof (cases "length (searchResults s) = 0 \<or> i < 0 \<or> int (length (searchResults s)) \<le> i")
  case True
  then show ?thesis using inv by (auto simp: navigateToMatch_def)
next
  case False
  then have ne: "searchResults s \<noteq> []" and i: "0 \<le> i" "nat i < length (searchResults s)"
    by auto
  define q where "q = currentSearchQuery s"
  from inv ne have q: "q \<noteq> []" and ot: "originalText s = b"
    and sr: "searchResults s = specScan b q 0"
    by (auto simp: searchInv_def q_def)
  have bne: "b \<noteq> []" using sr ne q specScan_Nil_text by auto
  obtain x where x: "highlightText b q i (searchResults s) = Some (x, specScan b q 0)"
    using highlightText_results[OF q] by blast
  have "specScan b q 0 ! nat i \<in> set (specScan b q 0)" using i sr by simp
  then have bound: "specScan b q 0 ! nat i \<le> length b" by (rule specScan_bound)
  let ?s' = "s\<lparr>currentMatchIndex := i, display := x, searchResults := specScan b q 0,
      CursorRow := count_list (take (specScan b q 0 ! nat i) b) CHR 0x0A, CursorColumn := 0\<rparr>"
  have "navigateToMatch i s = Some ?s'"
    using False i ot q bne x bound sr
    by (simp add: navigateToMatch_def q_def[symmetric] Let_def)
  moreover have "searchInv b ?s'"
    using ot q bne by (simp add: searchInv_def q_def)
  ultimately show ?thesis by blast
qed

lemma resetSearch_inv: "searchInv b s \<Longrightarrow> searchInv b (resetSearch s)"
  by (auto simp: searchInv_def resetSearch_def Let_def)

lemma searchInv_searchEntry [simp]: "searchInv b (s\<lparr>searchEntry := q\<rparr>) = searchInv b s"
  by (simp add: searchInv_def)

lemma searchAction_inv:
  assumes inv: "searchInv b s"
  shows "\<exists>s'. searchAction s = Some s' \<and> searchInv b s'"
proof -
  define q where "q = TrimSpace (searchEntry s)"
  consider (empty) "q = []" | (new) "q \<noteq> []" "currentSearchQuery s \<noteq> q"
    | (same) "q \<noteq> []" "currentSearchQuery s = q" "searchResults s \<noteq> []"
    | (none) "q \<noteq> []" "currentSearchQuery s = q" "searchResults s = []"
    by blast
  then show ?thesis
  proof cases
    case empty
    then show ?thesis using resetSearch_inv[OF inv] by (simp add: searchAction_def q_def[symmetric])
  next
    case new
    have s1: "(if originalText s = [] then s\<lparr>originalText := display s\<rparr> else s)
                = s\<lparr>originalText := b\<rparr>"
      using inv by (auto simp: searchInv_def)
    obtain x where x: "highlightText b q 0 (searchResults s) = Some (x, specScan b q 0)"
      using highlightText_results[OF new(1)] by blast
    have act: "searchAction s =
        (if specScan b q 0 \<noteq> []
         then navigateToMatch 0
                (s\<lparr>originalText := b, currentSearchQuery := q,
                   searchResults := specScan b q 0, currentMatchIndex := 0\<rparr>)
         else Some (s\<lparr>originalText := b, currentSearchQuery := q,
                      searchResults := specScan b q 0, display := b, currentMatchIndex := - 1\<rparr>))"
      unfolding searchAction_def Let_def q_def[symmetric] s1
      using new x by simp
    show ?thesis
    proof (cases "specScan b q 0 = []")
      case True
      then show ?thesis unfolding act by (simp add: searchInv_def)
    next
      case False
      then have "b \<noteq> []" using new(1) specScan_Nil_text by auto
      then have "searchInv b (s\<lparr>originalText := b, currentSearchQuery := q,
                   searchResults := specScan b q 0, currentMatchIndex := 0\<rparr>)"
        using new(1) by (simp add: searchInv_def)
      then show ?thesis unfolding act using False navigateToMatch_inv by simp
    qed
  next
    case same
    then have "searchAction s = navigateToMatch
        (goRem (currentMatchIndex s + 1) (int (length (searchResults s)))) s"
      by (simp add: searchAction_def q_def[symmetric] Let_def)
    then show ?thesis using navigateToMatch_inv[OF inv] by simp
  next
    case none
    then have "searchAction s = Some s"
      by (simp add: searchAction_def q_def[symmetric] Let_def)
    then show ?thesis using inv by simp
  qed
qed

lemma searchStep_inv:
  assumes "searchInv b s" and "\<not> isJsonata x"
  shows "\<exists>s'. searchStep eval x s = Some s' \<and> searchInv (lastBody b [x]) s'"
proof (cases x)
  case (Search q)
  then show ?thesis using searchAction_inv[of b "s\<lparr>searchEntry := q\<rparr>"] assms(1) by simp
next
  case Next
  then show ?thesis using navigateToMatch_inv[OF assms(1)] assms(1)
    by (simp add: nextTapped_def Let_def)
next
  case Previous
  then show ?thesis using navigateToMatch_inv[OF assms(1)] assms(1)
    by (simp add: prevTapped_def Let_def)
next
  case Clear
  then show ?thesis using resetSearch_inv[of b "s\<lparr>searchEntry := []\<rparr>"] assms(1)
    by (simp add: clearTapped_def)
next
  case (Response body)
  then show ?thesis by (simp add: responseArrives_def searchInv_def)
next
  case (Jsonata e)
  with assms(2) show ?thesis by simp
qed

lemma lastBody_Cons: "lastBody b (x # ops) = lastBody (lastBody b [x]) ops"
  by (cases x) simp_all

lemma searchRun_inv:
  assumes "searchInv b s" and "list_all (\<lambda>x. \<not> isJsonata x) ops"
  shows "\<exists>s'. searchRun eval ops s = Some s' \<and> searchInv (lastBody b ops) s'"
  using assms
proof (induction ops arbitrary: b s)
  case Nil
  then show ?case by simp
next
  case (Cons x ops)
  from Cons.prems have nj: "\<not> isJsonata x" and rest: "list_all (\<lambda>x. \<not> isJsonata x) ops"
    by simp_all
  from searchStep_inv[OF Cons.prems(1) nj]
  obtain s1 where s1: "searchStep eval x s = Some s1" "searchInv (lastBody b [x]) s1"
    by blast
  from Cons.IH[OF s1(2) rest]
  obtain s' where "searchRun eval ops s1 = Some s'" "searchInv (lastBody (lastBody b [x]) ops) s'"
    by blast
  then show ?case using s1(1) by (simp add: lastBody_Cons[of b x ops])
qed

lemma searchInv_initial: "searchInv [] initialSearchState"
  by (simp add: searchInv_def initialSearchState_def)

lemma offsets_against_response:
  assumes "list_all (\<lambda>x. \<not> isJsonata x) ops"
  shows "\<exists>s. searchRun eval ops initialSearchState = Some s \<and>
           (searchResults s = [] \<or>
            searchResults s = specScan (lastBody [] ops) (currentSearchQuery s) 0)"
  using searchRun_inv[OF searchInv_initial assms, of eval] by (auto simp: searchInv_def)

lemma navigateToMatch_originalText:
  "navigateToMatch i s = Some s' \<Longrightarrow> originalText s' = originalText s"
  by (auto simp: navigateToMatch_def Let_def split: if_splits option.splits)

lemma new_query_captures_once:
  assumes "searchAction s = Some s'" and "TrimSpace (searchEntry s) \<noteq> []"
    and "currentSearchQuery s \<noteq> TrimSpace (searchEntry s)"
  shows "originalText s' = (if originalText s = [] then display s else originalText s)"
  using assms
  by (auto simp: searchAction_def Let_def split: if_splits option.splits prod.splits
        dest!: navigateToMatch_originalText)

text \<open>
  C1. The claim is that the match offsets are always computed against the captured
  unannotated text, for every sequence of operations, JSONata among them. By the lemmas
  above the code keeps this for every sequence without a JSONata step
  (\<open>offsets_against_response\<close>), and a new query captures the shown text only when no
  capture is held (\<open>new_query_captures_once\<close>). It does not keep it on the JSONata path.
  A response \<open>{"a":1}\<close> arrives and \<open>a\<close> is searched, so the response box shows the text
  with the current-match markers around \<open>a\<close>. Applying a JSONata expression then stores
  the text of the response box, markers included, in \<open>originalText\<close>; the next search, for
  \<open>1\<close>, scans that annotated text and reports offset 18, where the response has \<open>1\<close> at
  offset 5.
\<close>

theorem jsonata_recaptures_annotated_text:
  "map_option (\<lambda>s. (originalText s, searchResults s))
     (searchRun (\<lambda>expr jsonText. Some ''1'')
        [Response ''{\"a\":1}'', Search ''a'', Jsonata ''$.a'', Search ''1'']
        initialSearchState)
     = Some (''{\"'' @ curOpen @ ''a'' @ curClose @ ''\":1}'', [18])
   \<and> specScan ''{\"a\":1}'' ''1'' 0 = [5]"
  by code_simp

subsection \<open>Header codec: what \<open>parseHeaders\<close> returns\<close>








subsection \<open>Header codec: flattening and parsing again\<close>

text \<open>Facts about \<open>TrimSpace\<close>.\<close>

lemma TrimSpace_Nil [simp]: "TrimSpace [] = []"
  by (simp add: TrimSpace_def)

lemma TrimSpace_fixed:
  assumes "s = [] \<or> (\<not> isSpace (hd s) \<and> \<not> isSpace (last s))"
  shows "TrimSpace s = s"
proof (cases "s = []")
  case True then show ?thesis by simp
next
  case False
  with assms have h: "\<not> isSpace (hd s)" and l: "\<not> isSpace (last s)" by auto
  from False h have "dropWhile isSpace s = s"
    by (cases s) auto
  moreover from False l have "dropWhile isSpace (rev s) = rev s"
    by (cases "rev s") (auto simp: last_rev hd_rev[symmetric])
  ultimately show ?thesis by (simp add: TrimSpace_def)
qed

lemma TrimSpace_ends:
  assumes "TrimSpace s \<noteq> []"
  shows "\<not> isSpace (hd (TrimSpace s)) \<and> \<not> isSpace (last (TrimSpace s))"
proof -
  define a where "a = dropWhile isSpace s"
  define b where "b = dropWhile isSpace (rev a)"
  have ts: "TrimSpace s = rev b" by (simp add: TrimSpace_def a_def b_def)
  with assms have bne: "b \<noteq> []" by simp
  then have "\<not> isSpace (hd b)" unfolding b_def by (rule hd_dropWhile)
  then have last: "\<not> isSpace (last (rev b))" using bne by (simp add: last_rev)
  have "rev a = takeWhile isSpace (rev a) @ b" by (simp add: b_def)
  then have "a = rev b @ rev (takeWhile isSpace (rev a))"
    by (metis rev_append rev_rev_ident)
  then have "hd a = hd (rev b)" using bne by (metis hd_append2 rev_is_Nil_conv)
  moreover have "a \<noteq> []" using \<open>a = rev b @ _\<close> bne by auto
  then have "\<not> isSpace (hd a)" unfolding a_def by (rule hd_dropWhile)
  ultimately show ?thesis using last ts by simp
qed

lemma TrimSpace_idem [simp]: "TrimSpace (TrimSpace s) = TrimSpace s"
  by (rule TrimSpace_fixed) (use TrimSpace_ends in blast)




text \<open>Facts about \<open>Split\<close>.\<close>

lemma Split_nonempty [simp]: "Split s c \<noteq> []"
  by (induction s) (auto simp: Let_def)











text \<open>Facts about \<open>Join\<close>.\<close>

lemma Join_single [simp]: "Join [v] sep = v"
  by simp

















subsection \<open>Workspace store: saving and loading\<close>













subsection \<open>Workspace store: lookups by name\<close>

lemma wsIndex_Some:
  "wsIndex n ws = Some i \<Longrightarrow> i < length ws \<and> WName (ws ! i) = n \<and> (\<forall>j<i. WName (ws ! j) \<noteq> n)"
proof (induction ws arbitrary: i)
  case Nil then show ?case by simp
next
  case (Cons w ws)
  show ?case
  proof (cases "WName w = n")
    case True with Cons.prems show ?thesis by simp
  next
    case False
    with Cons.prems obtain i' where i': "wsIndex n ws = Some i'" "i = Suc i'" by auto
    from Cons.IH[OF i'(1)] False i'(2) show ?thesis
      by (auto simp: nth_Cons split: nat.splits)
  qed
qed

lemma workspaces_saveAll [simp]: "workspaces (snd (saveAll ws s)) = ws"
  by (simp add: saveAll_def split: prod.splits)

lemma saveReqBtn_first_only:
  assumes "wsIndex (workspaceSelected s) (workspaces s) = Some wsIdx" and "j \<noteq> wsIdx"
  shows "workspaces (saveReqBtn s) ! j = workspaces s ! j"
  using assms by (simp add: saveReqBtn_def appendRequest_def Let_def)

text \<open>
  C5. The claim is that with several workspaces of one name every lookup or mutation by
  name touches the first of them only. \<open>saveReqBtn\<close> does so (lemma
  \<open>saveReqBtn_first_only\<close>: its loop breaks at the first match), but the loops of
  \<open>createNewCollection\<close> and \<open>importPostmanJSON\<close> have no \<open>break\<close>: with two workspaces
  named \<open>W\<close>, creating the collection \<open>c\<close> adds it to both, and importing a Postman
  collection \<open>p\<close> adds it to both.
\<close>

theorem collection_added_to_every_match:
  "map (map CName \<circ> Collections) (workspaces (createNewCollection True ''c'' twoSameName))
     = [[''c''], [''c'']]
   \<and> map (map CName \<circ> Collections)
       (workspaces (importPostmanJSON (Some (Inr \<lparr>infoName = ''p'', items = []\<rparr>)) twoSameName))
     = [[''p''], [''p'']]"
  by (simp add: createNewCollection_def importPostmanJSON_def createStep_def importStep_def
        saveAll_def saveWorkspaces_def addCollectionAt_def twoSameName_def noFile_def Let_def)

theorem collection_added_to_every_match_witness:
  "map (length \<circ> Collections) (workspaces (createNewCollection True ''c'' twoSameName))
     = [1, 1]"
proof -
  from collection_added_to_every_match
  have "map (map CName \<circ> Collections)
          (workspaces (createNewCollection True ''c'' twoSameName)) = [[''c''], [''c'']]"
    by (rule conjunct1)
  then have "map length (map (map CName \<circ> Collections)
          (workspaces (createNewCollection True ''c'' twoSameName)))
        = map length [[''c''], [''c'']]"
    by (rule arg_cong)
  then show ?thesis
    by (simp add: comp_def)
qed

subsection \<open>Workspace store: saving a request\<close>

text \<open>
  C10. Whenever \<open>saveReqBtn\<close> gets past its checks (a workspace is selected and found, and
  the collection index is within its collections), the requests of that collection are
  the old ones followed by one new request whose name and whose URL are both the text
  of the URL entry.
\<close>

theorem saveReqBtn_name_is_url:
  assumes "workspaceSelected s \<noteq> []" and "workspaceSelected s \<noteq> ''+ New Workspace''"
    and "wsIndex (workspaceSelected s) (workspaces s) = Some wsIdx"
    and "0 \<le> selectedCollectionIdx s"
    and "selectedCollectionIdx s < int (length (Collections (workspaces s ! wsIdx)))"
  shows "\<exists>r. Requests (Collections (workspaces (saveReqBtn s) ! wsIdx) ! nat (selectedCollectionIdx s))
              = Requests (Collections (workspaces s ! wsIdx) ! nat (selectedCollectionIdx s)) @ [r]
            \<and> Name r = urlEntry s \<and> URL r = urlEntry s"
proof -
  from wsIndex_Some[OF assms(3)] have "wsIdx < length (workspaces s)" by simp
  moreover have "nat (selectedCollectionIdx s) < length (Collections (workspaces s ! wsIdx))"
    using assms(4,5) by simp
  ultimately show ?thesis using assms
    by (simp add: saveReqBtn_def appendRequest_def Let_def)
qed

theorem saveReqBtn_name_is_url_witness:
  "map Name (Requests (Collections (workspaces (saveReqBtn oneRequest) ! 0) ! 0)) = [''r'', ''http://h/x'']
   \<and> map URL (Requests (Collections (workspaces (saveReqBtn oneRequest) ! 0) ! 0)) = [''http://h/'', ''http://h/x'']"
proof -
  have "\<exists>r. Requests (Collections (workspaces (saveReqBtn oneRequest) ! 0) ! nat (selectedCollectionIdx oneRequest))
              = Requests (Collections (workspaces oneRequest ! 0) ! nat (selectedCollectionIdx oneRequest)) @ [r]
            \<and> Name r = urlEntry oneRequest \<and> URL r = urlEntry oneRequest"
    by (rule saveReqBtn_name_is_url) (simp_all add: oneRequest_def)
  then show ?thesis
    by (auto simp: oneRequest_def)
qed

subsection \<open>Workspace store: request indices out of range\<close>

text \<open>
  C6, as amended. For a selected collection and every request index that is not less
  than the number of its requests, \<open>deleteRequest\<close> and \<open>editRequestName\<close> return without
  a panic and leave the whole state, the request list included, as it was.
\<close>

theorem request_index_beyond_end:
  assumes "wsIndex (workspaceSelected s) (workspaces s) = Some wsIdx"
    and "0 \<le> selectedCollectionIdx s"
    and "selectedCollectionIdx s < int (length (Collections (workspaces s ! wsIdx)))"
    and "int (length (Requests (Collections (workspaces s ! wsIdx)
            ! nat (selectedCollectionIdx s)))) \<le> reqIdx"
  shows "deleteRequest reqIdx confirmed s = Inr s \<and> editRequestName reqIdx ok entryText s = Inr s"
  using assms by (simp add: deleteRequest_def editRequestName_def Let_def)

theorem request_index_beyond_end_witness:
  "deleteRequest 1 True oneRequest = Inr oneRequest
   \<and> editRequestName 1 True ''n'' oneRequest = Inr oneRequest"
  by (rule request_index_beyond_end[where wsIdx = 0]) (simp_all add: oneRequest_def)

text \<open>
  The claim as stated also covers negative indices. Neither function checks for one: with
  the index \<open>-1\<close> both read \<open>coll.Requests[reqIdx]\<close> and panic.
\<close>

theorem negative_request_index_panics:
  "deleteRequest (- 1) True oneRequest = Inl IndexOutOfRange
   \<and> editRequestName (- 1) True ''n'' oneRequest = Inl IndexOutOfRange"
  by (simp add: deleteRequest_def editRequestName_def oneRequest_def)

end
